theory Spec2Isabelle
  imports Complex_Main "HOL-Library.AList"
begin

section \<open>Values, errors and library functions\<close>

text \<open>
  The scoring engine of the Smart Task Analyzer (\<^verbatim>\<open>tasks/scoring.py\<close>) as HOL functions.
  A Python \<^verbatim>\<open>float\<close> is a finite binary64 number, modelled by the real number it denotes;
  every arithmetic operation on floats rounds its exact result to the nearest binary64 number
  (function \<open>fl\<close> below), as the hardware does. The values not-a-number and infinity have no
  counterpart: the input types below hold finite floats only, and no operation of the engine
  leaves the finite range on them. Python's \<^verbatim>\<open>int\<close> is \<^typ>\<open>int\<close>, and a calendar date is its
  proleptic Gregorian ordinal, so that \<^verbatim>\<open>(due - today).days\<close> is integer subtraction.
  An exception is a value \<open>Inl e\<close> of the sum type \<open>error + 'a\<close>.
\<close>

datatype error =
    KeyError string \<comment> \<open>\<^verbatim>\<open>raw["k"]\<close> on a dictionary without the key \<open>k\<close>\<close>
  | ValueError \<comment> \<open>a text that \<^verbatim>\<open>float\<close>, \<^verbatim>\<open>int\<close> or \<^verbatim>\<open>date.fromisoformat\<close> rejects, \<^verbatim>\<open>max\<close> of nothing\<close>
  | TypeError \<comment> \<open>an operand of the wrong type\<close>
  | ZeroDivisionError
  | OverflowError \<comment> \<open>an \<^verbatim>\<open>int\<close> too large to convert to a \<^verbatim>\<open>float\<close>\<close>
  | UnknownStrategy string \<comment> \<open>the \<^verbatim>\<open>ValueError("Unknown strategy ...")\<close> of \<open>score_tasks\<close>\<close>

text \<open>The loosely typed values a raw task dictionary holds in the fields the parser coerces.\<close>

datatype pyval =
    PNone
  | PInt int
  | PFloat real \<comment> \<open>a finite \<^verbatim>\<open>float\<close>\<close>
  | PStr string
  | PDate int \<comment> \<open>a \<^verbatim>\<open>datetime.date\<close>\<close>
  | PDateTime int nat \<comment> \<open>a \<^verbatim>\<open>datetime.datetime\<close>: the day and the time of day\<close>

text \<open>
  A value of declared type \<^verbatim>\<open>date\<close>. \<^verbatim>\<open>datetime\<close> is a subclass of \<^verbatim>\<open>date\<close>, so a
  date-time object is an instance of \<^verbatim>\<open>date\<close> too.
\<close>

datatype pydate = Date int | DateTime int nat

text \<open>
  The text conversions of the Python library are not part of the repository. The model takes
  them as parameters, so every theorem holds whatever texts they accept:
  \<^verbatim>\<open>float(s)\<close>, \<^verbatim>\<open>int(s)\<close> and \<^verbatim>\<open>date.fromisoformat(s)\<close> on a text (\<open>None\<close> where Python
  raises \<^verbatim>\<open>ValueError\<close>), \<^verbatim>\<open>str(v)\<close> on a value that is not a text, and the format
  \<^verbatim>\<open>f"{x:g}"\<close> of a float. The built-in \<^verbatim>\<open>sum\<close> of a sequence of floats is a parameter as
  well: it adds from left to right up to Python 3.11 and keeps a compensation term from
  Python 3.12 on.
\<close>

record pylib =
  float_of_str :: "string \<Rightarrow> real option"
  int_of_str :: "string \<Rightarrow> int option"
  date_fromisoformat :: "string \<Rightarrow> int option"
  str_of :: "pyval \<Rightarrow> string"
  format_g :: "real \<Rightarrow> string"
  float_sum :: "real list \<Rightarrow> real"

subsection \<open>Binary64 arithmetic\<close>

text \<open>
  Rounding to the nearest integer, a tie going to the even one.
\<close>

definition round_half_even :: "real \<Rightarrow> int" where
  "round_half_even x =
     (let f = \<lfloor>x\<rfloor>; d = x - of_int f
      in if d < 1 / 2 then f else if 1 / 2 < d then f + 1 else if even f then f else f + 1)"

text \<open>
  The binade of a number \<open>x\<close> is the exponent \<open>b\<close> with \<open>2\<^sup>b \<le> |x| < 2\<^sup>b\<^sup>+\<^sup>1\<close>, kept between
  \<open>-1022\<close> (below it the numbers are subnormal) and \<open>1023\<close>. It is found by halving or doubling,
  at most \<open>n\<close> times.
\<close>

function halvings :: "int \<Rightarrow> real \<Rightarrow> int" where
  "halvings n x = (if 0 < n \<and> 2 \<le> x then 1 + halvings (n - 1) (x / 2) else 0)"
  by pat_completeness auto
termination halvings
  by (relation "measure (\<lambda>(n, x). nat n)") auto

function doublings :: "int \<Rightarrow> real \<Rightarrow> int" where
  "doublings n x = (if 0 < n \<and> x < 1 then doublings (n - 1) (2 * x) - 1 else 0)"
  by pat_completeness auto
termination doublings
  by (relation "measure (\<lambda>(n, x). nat n)") auto

declare halvings.simps [simp del] doublings.simps [simp del]

definition binade :: "real \<Rightarrow> int" where
  "binade x = (if 1 \<le> \<bar>x\<bar> then halvings 1023 \<bar>x\<bar> else doublings 1022 \<bar>x\<bar>)"

text \<open>
  \<open>fl x\<close> is the binary64 number nearest to \<open>x\<close>, a tie going to the even significand: the
  multiple of \<open>2\<^sup>b\<^sup>-\<^sup>5\<^sup>2\<close> nearest to \<open>x\<close>, where \<open>b\<close> is the binade of \<open>x\<close>. A result of
  magnitude \<open>2\<^sup>1\<^sup>0\<^sup>2\<^sup>4\<close> or more is out of range.
\<close>

definition fl :: "real \<Rightarrow> real" where
  "fl x = (if x = 0 then 0
           else let e = binade x - 52 in of_int (round_half_even (x / 2 powi e)) * 2 powi e)"

definition fadd :: "real \<Rightarrow> real \<Rightarrow> real" where
  "fadd x y = fl (x + y)"

definition fsub :: "real \<Rightarrow> real \<Rightarrow> real" where
  "fsub x y = fl (x - y)"

definition fmul :: "real \<Rightarrow> real \<Rightarrow> real" where
  "fmul x y = fl (x * y)"

text \<open>\<^verbatim>\<open>x / y\<close> on two floats.\<close>

definition float_div :: "real \<Rightarrow> real \<Rightarrow> error + real" where
  "float_div x y = (if y = 0 then Inl ZeroDivisionError else Inr (fl (x / y)))"

text \<open>The conversion of an \<^verbatim>\<open>int\<close> to a \<^verbatim>\<open>float\<close>, which an arithmetic operator applies to
  an \<^verbatim>\<open>int\<close> operand next to a \<^verbatim>\<open>float\<close> one.\<close>

definition float_of_int :: "int \<Rightarrow> error + real" where
  "float_of_int i =
     (let r = fl (of_int i) in if 2 ^ 1024 \<le> \<bar>r\<bar> then Inl OverflowError else Inr r)"

text \<open>\<^verbatim>\<open>a / b\<close> on two \<^verbatim>\<open>int\<close>s: the quotient, rounded once.\<close>

definition int_truediv :: "int \<Rightarrow> int \<Rightarrow> error + real" where
  "int_truediv a b =
     (if b = 0 then Inl ZeroDivisionError
      else let r = fl (of_int a / of_int b)
           in if 2 ^ 1024 \<le> \<bar>r\<bar> then Inl OverflowError else Inr r)"

text \<open>
  \<^verbatim>\<open>round(x, n)\<close> for a float \<open>x\<close>: the exact value of \<open>x\<close> is rounded to \<open>n\<close> decimals, a tie
  going to the even digit, and the decimal number is converted to the nearest float.
\<close>

definition py_round :: "real \<Rightarrow> nat \<Rightarrow> real" where
  "py_round x n = fl (of_int (round_half_even (x * 10 ^ n)) / 10 ^ n)"

subsection \<open>Conversions and built-in functions\<close>

definition py_float :: "pylib \<Rightarrow> pyval \<Rightarrow> error + real" where
  "py_float lib v =
     (case v of
        PInt i \<Rightarrow> float_of_int i
      | PFloat r \<Rightarrow> Inr r
      | PStr s \<Rightarrow> (case float_of_str lib s of None \<Rightarrow> Inl ValueError | Some r \<Rightarrow> Inr r)
      | _ \<Rightarrow> Inl TypeError)"

definition py_int :: "pylib \<Rightarrow> pyval \<Rightarrow> error + int" where
  "py_int lib v =
     (case v of
        PInt i \<Rightarrow> Inr i
      | PFloat r \<Rightarrow> Inr (if 0 \<le> r then \<lfloor>r\<rfloor> else \<lceil>r\<rceil>)
      | PStr s \<Rightarrow> (case int_of_str lib s of None \<Rightarrow> Inl ValueError | Some i \<Rightarrow> Inr i)
      | _ \<Rightarrow> Inl TypeError)"

definition py_str :: "pylib \<Rightarrow> pyval \<Rightarrow> string" where
  "py_str lib v = (case v of PStr s \<Rightarrow> s | _ \<Rightarrow> str_of lib v)"

text \<open>\<^verbatim>\<open>max(xs)\<close> of a sequence: Python raises \<^verbatim>\<open>ValueError\<close> on an empty one.\<close>

definition py_max :: "int list \<Rightarrow> error + int" where
  "py_max xs = (case xs of [] \<Rightarrow> Inl ValueError | x # rest \<Rightarrow> Inr (fold max rest x))"

primrec enumerate_from :: "int \<Rightarrow> 'a list \<Rightarrow> (int \<times> 'a) list" where
  "enumerate_from i [] = []"
| "enumerate_from i (x # xs) = (i, x) # enumerate_from (i + 1) xs"

text \<open>Decimal text of an integer, as \<^verbatim>\<open>str\<close> and an f-string print it.\<close>

definition digit_char :: "nat \<Rightarrow> char" where
  "digit_char d = char_of (48 + d)"

fun show_nat :: "nat \<Rightarrow> string" where
  "show_nat n = (if n < 10 then [digit_char n] else show_nat (n div 10) @ [digit_char (n mod 10)])"

definition show_int :: "int \<Rightarrow> string" where
  "show_int i = (if i < 0 then CHR ''-'' # show_nat (nat (- i)) else show_nat (nat i))"

text \<open>\<^verbatim>\<open>sep.join(parts)\<close>\<close>

fun join :: "string \<Rightarrow> string list \<Rightarrow> string" where
  "join sep [] = []"
| "join sep [p] = p"
| "join sep (p # q # ps) = p @ sep @ join sep (q # ps)"

section \<open>Task records and the parser\<close>

definition DEFAULT_STRATEGY :: string where
  "DEFAULT_STRATEGY = ''smart_balance''"

definition STRATEGY_CHOICES :: "string list" where
  "STRATEGY_CHOICES = [''fastest_wins'', ''high_impact'', ''deadline_driven'', ''smart_balance'']"

definition MAX_URGENCY_DAYS :: int where
  "MAX_URGENCY_DAYS = 30"

record TaskData =
  task_id :: int
  title :: string
  due_date :: "pydate option"
  estimated_hours :: real
  importance :: int
  dependencies :: "int list"

text \<open>
  A raw task dictionary, restricted to the six keys the parser reads. \<open>None\<close> is an absent
  key. The parser stores \<open>id\<close>, \<open>title\<close> and \<open>dependencies\<close> as they come, so they have the
  types \<open>TaskData\<close> declares for them (for \<open>id\<close>, \<open>None\<close> is also the null value); the other three
  fields are coerced and hold any \<^typ>\<open>pyval\<close>.
\<close>

record raw_task =
  raw_id :: "int option"
  raw_title :: "string option"
  raw_due_date :: "pyval option"
  raw_estimated_hours :: "pyval option"
  raw_importance :: "pyval option"
  raw_dependencies :: "int list option"

text \<open>
  \<open>_coerce_date\<close>. The test \<^verbatim>\<open>isinstance(value, date)\<close> holds for a date-time object as well,
  which is returned as it is; the branch \<^verbatim>\<open>isinstance(value, datetime)\<close> after it is never
  reached.
\<close>

definition coerce_date :: "pylib \<Rightarrow> pyval \<Rightarrow> error + pydate option" where
  "coerce_date lib v =
     (if v = PNone \<or> v = PStr [] then Inr None
      else case v of
        PDate d \<Rightarrow> Inr (Some (Date d))
      | PDateTime d s \<Rightarrow> Inr (Some (DateTime d s))
      | _ \<Rightarrow> (case date_fromisoformat lib (py_str lib v) of
                None \<Rightarrow> Inl ValueError
              | Some d \<Rightarrow> Inr (Some (Date d))))"

text \<open>
  The body of the loop of \<open>parse_tasks\<close>, in Python's evaluation order: the due date is coerced
  first, then the keyword arguments of \<open>TaskData\<close> from left to right.
\<close>

definition parse_task :: "pylib \<Rightarrow> int \<Rightarrow> raw_task \<Rightarrow> error + TaskData" where
  "parse_task lib idx raw =
     (let due_value = (case raw_due_date raw of None \<Rightarrow> PNone | Some v \<Rightarrow> v) in
      case coerce_date lib due_value of Inl e \<Rightarrow> Inl e | Inr due \<Rightarrow>
      let tid = (case raw_id raw of None \<Rightarrow> idx | Some i \<Rightarrow> if i = 0 then idx else i) in
      case raw_title raw of None \<Rightarrow> Inl (KeyError ''title'') | Some ttl \<Rightarrow>
      case raw_estimated_hours raw of None \<Rightarrow> Inl (KeyError ''estimated_hours'') | Some hv \<Rightarrow>
      case py_float lib hv of Inl e \<Rightarrow> Inl e | Inr hours \<Rightarrow>
      case raw_importance raw of None \<Rightarrow> Inl (KeyError ''importance'') | Some iv \<Rightarrow>
      case py_int lib iv of Inl e \<Rightarrow> Inl e | Inr imp \<Rightarrow>
      Inr \<lparr>task_id = tid, title = ttl, due_date = due, estimated_hours = hours,
           importance = imp,
           dependencies = (case raw_dependencies raw of None \<Rightarrow> [] | Some ds \<Rightarrow> ds)\<rparr>)"

fun parse_loop :: "pylib \<Rightarrow> (int \<times> raw_task) list \<Rightarrow> TaskData list \<Rightarrow> error + TaskData list" where
  "parse_loop lib [] tasks = Inr tasks"
| "parse_loop lib ((idx, raw) # rest) tasks =
     (case parse_task lib idx raw of
        Inl e \<Rightarrow> Inl e
      | Inr t \<Rightarrow> parse_loop lib rest (tasks @ [t]))"

definition parse_tasks :: "pylib \<Rightarrow> raw_task list \<Rightarrow> error + TaskData list" where
  "parse_tasks lib payload = parse_loop lib (enumerate_from 1 payload) []"

section \<open>Component scores\<close>

text \<open>
  \<open>compute_urgency\<close>. \<open>clock\<close> is what \<^verbatim>\<open>date.today()\<close> returns, read only when no \<open>today\<close> is
  passed. Subtracting a date from a date-time object raises \<^verbatim>\<open>TypeError\<close>. The quotient and
  the difference are written as the exact numbers: the engine uses the urgency only rounded
  to four decimals, and ten thousand times \<open>1 - k / 30\<close> is a whole number of thirds, never
  within a binary rounding error of a tie, so the float and the exact number round alike.
\<close>

definition compute_urgency :: "int \<Rightarrow> pydate option \<Rightarrow> int option \<Rightarrow> error + (real \<times> int option)" where
  "compute_urgency clock due today_arg =
     (let today = (case today_arg of None \<Rightarrow> clock | Some t \<Rightarrow> t) in
      case due of
        None \<Rightarrow> Inr (1 / 10, None)
      | Some (DateTime d s) \<Rightarrow> Inl TypeError
      | Some (Date d) \<Rightarrow>
          (let days_left = d - today in
           if days_left < 0 then Inr (1, Some days_left)
           else Inr (max 0 (1 - of_int (min days_left MAX_URGENCY_DAYS) / of_int MAX_URGENCY_DAYS),
                     Some days_left)))"

text \<open>
  \<open>compute_importance\<close>: in \<^verbatim>\<open>value / 10.0\<close> the integer is converted to a float first.
\<close>

definition compute_importance :: "int \<Rightarrow> error + real" where
  "compute_importance v =
     (case float_of_int v of
        Inl e \<Rightarrow> Inl e
      | Inr fv \<Rightarrow> Inr (min (max (fl (fv / 10)) 0) 1))"

definition compute_quick_win :: "real \<Rightarrow> real" where
  "compute_quick_win hours =
     (let capped = min (max hours 0) 8; penalty = fl (capped / 8) in fsub 1 penalty)"

section \<open>The dependency graph\<close>

text \<open>
  A Python dictionary keeps its keys in insertion order, and \<open>find_cycles\<close> walks them in that
  order, so a dictionary is an association list: \<^const>\<open>AList.update\<close> overwrites the value of a
  key in place and appends a new key at the end, as an assignment \<^verbatim>\<open>d[k] = v\<close> does.
\<close>

definition dict_get :: "('k \<times> 'v) list \<Rightarrow> 'k \<Rightarrow> 'v \<Rightarrow> 'v" where
  "dict_get d k dflt = (case map_of d k of None \<Rightarrow> dflt | Some v \<Rightarrow> v)"

text \<open>
  The body of the inner loop of \<open>build_dependency_graph\<close>:
  \<^verbatim>\<open>adjacency.setdefault(dependency, []).append(task.id)\<close> and the increment of the count.
\<close>

definition register_dependency ::
  "int \<Rightarrow> int \<Rightarrow> (int \<times> int list) list \<times> (int \<times> int) list
     \<Rightarrow> (int \<times> int list) list \<times> (int \<times> int) list" where
  "register_dependency tid dependency acc =
     (case acc of (adjacency, dependent_counts) \<Rightarrow>
        (AList.update dependency (dict_get adjacency dependency [] @ [tid]) adjacency,
         AList.update dependency (dict_get dependent_counts dependency 0 + 1) dependent_counts))"

definition build_dependency_graph ::
  "TaskData list \<Rightarrow> (int \<times> int list) list \<times> (int \<times> int) list" where
  "build_dependency_graph tasks =
     (let adjacency = fold (\<lambda>task d. AList.update (task_id task) [] d) tasks [];
          dependent_counts = fold (\<lambda>task d. AList.update (task_id task) 0 d) tasks []
      in fold (\<lambda>task acc. fold (register_dependency (task_id task)) (dependencies task) acc)
           tasks (adjacency, dependent_counts))"

section \<open>Cycle detection\<close>

text \<open>The three sets that the closure \<open>dfs\<close> of \<open>find_cycles\<close> mutates.\<close>

record dfs_state =
  visited :: "int set"
  stack :: "int set"
  cycle_nodes :: "int set"

definition graph_nodes :: "(int \<times> int list) list \<Rightarrow> int set" where
  "graph_nodes graph = fst ` set graph \<union> (\<Union>p \<in> set graph. set (snd p))"

text \<open>
  \<open>dfs\<close> is the recursive closure; \<open>dfs_neighbors\<close> is its \<^verbatim>\<open>for neighbor in graph.get(node, [])\<close>
  loop over the neighbours still to be looked at.
\<close>

function dfs :: "(int \<times> int list) list \<Rightarrow> int \<Rightarrow> dfs_state \<Rightarrow> dfs_state"
  and dfs_neighbors :: "(int \<times> int list) list \<Rightarrow> int list \<Rightarrow> dfs_state \<Rightarrow> dfs_state" where
  "dfs graph node st =
     (let st1 = st\<lparr>visited := insert node (visited st), stack := insert node (stack st)\<rparr>;
          st2 = dfs_neighbors graph (dict_get graph node []) st1
      in st2\<lparr>stack := stack st2 - {node}\<rparr>)"
| "dfs_neighbors graph [] st = st"
| "dfs_neighbors graph (neighbor # rest) st =
     (if neighbor \<notin> visited st then dfs_neighbors graph rest (dfs graph neighbor st)
      else if neighbor \<in> stack st
        then dfs_neighbors graph rest (st\<lparr>cycle_nodes := cycle_nodes st \<union> stack st\<rparr>)
        else dfs_neighbors graph rest st)"
  by pat_completeness auto

lemma dfs_visited_mono_dom:
  "dfs_dfs_neighbors_dom (Inl (graph, node, st)) \<Longrightarrow> visited st \<subseteq> visited (dfs graph node st)"
  "dfs_dfs_neighbors_dom (Inr (graph, ns, st)) \<Longrightarrow> visited st \<subseteq> visited (dfs_neighbors graph ns st)"
proof (induction graph node st and graph ns st rule: dfs_dfs_neighbors.pinduct)
  case (1 graph node st)
  then show ?case by (auto simp: dfs.psimps Let_def)
next
  case (2 graph st)
  then show ?case by (simp add: dfs_neighbors.psimps)
next
  case (3 graph neighbor rest st)
  then show ?case by (auto simp: dfs_neighbors.psimps split: if_splits)
qed

lemma dict_get_nodes: "set (dict_get graph node []) \<subseteq> graph_nodes graph"
proof (cases "map_of graph node")
  case None
  then show ?thesis by (simp add: dict_get_def)
next
  case (Some ns)
  then have "(node, ns) \<in> set graph" by (rule map_of_SomeD)
  then have "set ns \<subseteq> graph_nodes graph" by (force simp: graph_nodes_def)
  with Some show ?thesis by (simp add: dict_get_def)
qed

lemma dict_get_not_node: "node \<notin> graph_nodes graph \<Longrightarrow> dict_get graph node [] = []"
proof (cases "map_of graph node")
  case None
  then show ?thesis by (simp add: dict_get_def)
next
  case (Some ns)
  assume out: "node \<notin> graph_nodes graph"
  from Some have "(node, ns) \<in> set graph" by (rule map_of_SomeD)
  then have "node \<in> graph_nodes graph" by (force simp: graph_nodes_def)
  with out show ?thesis by simp
qed

lemma finite_graph_nodes: "finite (graph_nodes graph)"
  by (simp add: graph_nodes_def)

termination dfs
proof (relation "inv_image (finite_psubset <*lex*> less_than)
    (\<lambda>x. case x of
       Inl (graph, node, st) \<Rightarrow>
         (graph_nodes graph - insert node (visited st), 2 * length (dict_get graph node []) + 1)
     | Inr (graph, ns, st) \<Rightarrow> (graph_nodes graph - visited st, 2 * length ns))", goal_cases)
  case 1
  then show ?case by (intro wf_inv_image wf_lex_prod wf_finite_psubset wf_less_than)
next
  case (2 graph node st)
  then show ?case by simp
next
  case (3 graph neighbor rest st)
  then show ?case
    by (cases "neighbor \<in> graph_nodes graph")
       (auto simp: finite_psubset_def finite_graph_nodes dict_get_not_node)
next
  case (4 graph neighbor rest st)
  have "graph_nodes graph - visited (dfs graph neighbor st) \<subseteq> graph_nodes graph - visited st"
    using dfs_visited_mono_dom(1)[OF 4(2)] by auto
  then show ?case
    by (auto simp: finite_psubset_def finite_graph_nodes)
next
  case (5 graph neighbor rest st)
  then show ?case by simp
next
  case (6 graph neighbor rest st)
  then show ?case by simp
qed

definition find_cycles :: "(int \<times> int list) list \<Rightarrow> int set" where
  "find_cycles graph =
     cycle_nodes
       (fold (\<lambda>node st. if node \<notin> visited st then dfs graph node st else st)
          (map fst graph) \<lparr>visited = {}, stack = {}, cycle_nodes = {}\<rparr>)"

section \<open>Strategies\<close>

record components =
  urgency :: real
  importance_norm :: real
  quick_win :: real
  dep_score :: real
  num_dependents :: int
  days_left :: "int option"

text \<open>
  A decimal literal such as \<^verbatim>\<open>0.6\<close> is the float \<open>fl (6 / 10)\<close>; a sum is added from left to
  right, each product and each sum rounded.
\<close>

definition score_fastest :: "components \<Rightarrow> real" where
  "score_fastest c =
     fadd (fadd (fmul (fl (6 / 10)) (quick_win c)) (fmul (fl (2 / 10)) (importance_norm c)))
          (fmul (fl (2 / 10)) (urgency c))"

definition score_high_impact :: "components \<Rightarrow> real" where
  "score_high_impact c =
     fadd (fadd (fmul (fl (7 / 10)) (importance_norm c)) (fmul (fl (2 / 10)) (urgency c)))
          (fmul (fl (1 / 10)) (dep_score c))"

definition score_deadline :: "components \<Rightarrow> real" where
  "score_deadline c =
     fadd (fadd (fmul (fl (7 / 10)) (urgency c)) (fmul (fl (2 / 10)) (importance_norm c)))
          (fmul (fl (1 / 10)) (quick_win c))"

definition score_smart :: "components \<Rightarrow> real" where
  "score_smart c =
     fadd (fadd (fadd (fmul (fl (35 / 100)) (urgency c)) (fmul (fl (35 / 100)) (importance_norm c)))
                (fmul (fl (15 / 100)) (quick_win c)))
          (fmul (fl (15 / 100)) (dep_score c))"

definition STRATEGY_FUNCTIONS :: "(string \<times> (components \<Rightarrow> real)) list" where
  "STRATEGY_FUNCTIONS =
     [(''fastest_wins'', score_fastest), (''high_impact'', score_high_impact),
      (''deadline_driven'', score_deadline), (''smart_balance'', score_smart)]"

section \<open>Explanations\<close>

definition build_explanation :: "pylib \<Rightarrow> TaskData \<Rightarrow> components \<Rightarrow> bool \<Rightarrow> string" where
  "build_explanation lib task comps cycle_issue =
     (let parts1 =
            (case due_date task of
               None \<Rightarrow> [''No deadline (low urgency)'']
             | Some _ \<Rightarrow>
                 (let due_text =
                        (case days_left comps of
                           Some dl \<Rightarrow>
                             if dl < 0 then ''overdue by '' @ show_int (\<bar>dl\<bar>) @ '' day(s)''
                             else if dl = 0 then ''due today''
                             else ''due in '' @ show_int dl @ '' day(s)''
                         | None \<Rightarrow> ''no due data'');
                      urgency_desc =
                        (if fl (8 / 10) \<le> urgency comps then ''Very urgent''
                         else if fl (5 / 10) \<le> urgency comps then ''Moderately urgent''
                         else ''Low urgency'')
                  in [urgency_desc @ '' ('' @ due_text @ '')'']));
          parts2 = parts1 @ [''Importance '' @ show_int (importance task) @ ''/10''];
          parts3 =
            (if fl (7 / 10) \<le> quick_win comps
               then parts2 @ [''Quick win ('' @ format_g lib (estimated_hours task) @ ''h)'']
             else if quick_win comps \<le> fl (3 / 10)
               then parts2 @ [''Higher effort ('' @ format_g lib (estimated_hours task) @ ''h)'']
             else parts2);
          parts4 =
            (if 0 < num_dependents comps
               then parts3 @ [''Blocks '' @ show_int (num_dependents comps) @ '' other task(s)'']
             else parts3);
          parts5 = (if cycle_issue then parts4 @ [''Part of dependency cycle''] else parts4)
      in join ''; '' parts5)"

section \<open>Scoring, ranking and the summary\<close>

text \<open>
  An entry of the scored list: the keys of the task record and the keys scoring adds. \<open>rank\<close> is
  absent until the list has been sorted.
\<close>

record scored_task = TaskData +
  score :: real
  explanation :: string
  cycle_issue :: bool
  components :: components
  rank :: "int option"

record summary =
  summary_strategy :: string
  total_tasks :: nat
  average_score :: real
  top_titles :: "string list"

record analysis =
  strategy :: string
  tasks :: "scored_task list"
  summary :: summary

text \<open>
  Line 121 of \<open>score_tasks\<close>: \<^verbatim>\<open>max(dependents.values()) if dependents else 1\<close>, and the
  expression of line 131: \<^verbatim>\<open>(num_dependents / max_dep) if max_dep else 0.0\<close>.
\<close>

definition batch_max_dep :: "(int \<times> int) list \<Rightarrow> error + int" where
  "batch_max_dep dependents = (if dependents \<noteq> [] then py_max (map snd dependents) else Inr 1)"

definition raw_dep_score :: "int \<Rightarrow> int \<Rightarrow> error + real" where
  "raw_dep_score num_deps max_dep =
     (if max_dep \<noteq> 0 then int_truediv num_deps max_dep else Inr 0)"

text \<open>
  The body of the scoring loop of \<open>score_tasks\<close> for one task. \<open>today\<close> is the value of
  \<^verbatim>\<open>date.today()\<close> that \<open>score_tasks\<close> reads before the loop.
\<close>

definition score_task ::
  "pylib \<Rightarrow> int \<Rightarrow> string \<Rightarrow> (int \<times> int) list \<Rightarrow> int set \<Rightarrow> int \<Rightarrow> TaskData
     \<Rightarrow> error + scored_task" where
  "score_task lib today strat dependents cyc max_dep task =
     (case compute_urgency today (due_date task) (Some today) of Inl e \<Rightarrow> Inl e
      | Inr (urg, dl) \<Rightarrow>
     case compute_importance (importance task) of Inl e \<Rightarrow> Inl e
     | Inr imp_norm \<Rightarrow>
     let qw = compute_quick_win (estimated_hours task);
         num_deps = dict_get dependents (task_id task) 0 in
     case raw_dep_score num_deps max_dep of Inl e \<Rightarrow> Inl e
     | Inr dep_sc \<Rightarrow>
     let comps = \<lparr>urgency = py_round urg 4, importance_norm = py_round imp_norm 4,
                  quick_win = py_round qw 4, dep_score = py_round dep_sc 4,
                  num_dependents = num_deps, days_left = dl\<rparr> in
     case map_of STRATEGY_FUNCTIONS strat of None \<Rightarrow> Inl (KeyError strat)
     | Some f \<Rightarrow>
     let base_score = f comps;
         is_cyclic = (task_id task \<in> cyc);
         base_score2 = (if is_cyclic then fmul base_score (fl (2 / 10)) else base_score);
         sc = py_round (fmul base_score2 100) 2;
         expl = build_explanation lib task comps is_cyclic
     in Inr \<lparr>task_id = task_id task, title = title task, due_date = due_date task,
             estimated_hours = estimated_hours task, importance = importance task,
             dependencies = dependencies task, score = sc, explanation = expl,
             cycle_issue = is_cyclic, components = comps, rank = None\<rparr>)"

fun score_loop ::
  "pylib \<Rightarrow> int \<Rightarrow> string \<Rightarrow> (int \<times> int) list \<Rightarrow> int set \<Rightarrow> int \<Rightarrow> TaskData list
     \<Rightarrow> scored_task list \<Rightarrow> error + scored_task list" where
  "score_loop lib today strat dependents cyc max_dep [] scored = Inr scored"
| "score_loop lib today strat dependents cyc max_dep (task # rest) scored =
     (case score_task lib today strat dependents cyc max_dep task of
        Inl e \<Rightarrow> Inl e
      | Inr entry \<Rightarrow> score_loop lib today strat dependents cyc max_dep rest (scored @ [entry]))"

text \<open>
  \<^verbatim>\<open>scored_tasks.sort(key=..., reverse=True)\<close>: Python's sort is stable, also with
  \<^verbatim>\<open>reverse=True\<close>, so it returns the one descending arrangement that keeps entries of equal
  score in their order; a stable ascending sort on the negated score computes it.
\<close>

definition sort_by_score_desc :: "scored_task list \<Rightarrow> scored_task list" where
  "sort_by_score_desc xs = sort_key (\<lambda>entry. - score entry) xs"

definition assign_ranks :: "scored_task list \<Rightarrow> scored_task list" where
  "assign_ranks xs = map (\<lambda>(idx, item). item\<lparr>rank := Some idx\<rparr>) (enumerate_from 1 xs)"

text \<open>
  \<open>build_summary\<close>. In \<^verbatim>\<open>sum(...) / len(tasks)\<close> the length is converted to a float and the
  quotient is rounded.
\<close>

definition build_summary :: "pylib \<Rightarrow> scored_task list \<Rightarrow> string \<Rightarrow> error + summary" where
  "build_summary lib ts strat =
     (case (if ts \<noteq> []
            then (case float_of_int (int (length ts)) of
                    Inl e \<Rightarrow> Inl e
                  | Inr n \<Rightarrow>
                      (case float_div (float_sum lib (map score ts)) n of
                         Inl e \<Rightarrow> Inl e
                       | Inr avg \<Rightarrow> Inr (py_round avg 2)))
            else Inr 0) of
        Inl e \<Rightarrow> Inl e
      | Inr avg_score \<Rightarrow>
          Inr \<lparr>summary_strategy = strat, total_tasks = length ts, average_score = avg_score,
               top_titles = map title (take 3 ts)\<rparr>)"

text \<open>
  Lines 118 to 163 of \<open>score_tasks\<close>: the list \<open>scored_tasks\<close> as it stands before it is
  sorted, one entry per parsed task in the order of the payload.
\<close>

definition scored_entries :: "pylib \<Rightarrow> int \<Rightarrow> raw_task list \<Rightarrow> string \<Rightarrow> error + scored_task list" where
  "scored_entries lib today tasks_payload strat =
     (case parse_tasks lib tasks_payload of Inl e \<Rightarrow> Inl e
      | Inr parsed_tasks \<Rightarrow>
     case build_dependency_graph parsed_tasks of (graph, dependents) \<Rightarrow>
     let cyc = find_cycles graph in
     case batch_max_dep dependents of Inl e \<Rightarrow> Inl e
     | Inr max_dep \<Rightarrow> score_loop lib today strat dependents cyc max_dep parsed_tasks [])"

text \<open>
  \<open>score_tasks\<close>. It has two parameters, the payload and the strategy name; \<open>today\<close> is not one
  of them but the system clock's \<^verbatim>\<open>date.today()\<close>, which the function reads once per call.
\<close>

definition score_tasks :: "pylib \<Rightarrow> int \<Rightarrow> raw_task list \<Rightarrow> string \<Rightarrow> error + analysis" where
  "score_tasks lib today tasks_payload strat =
     (if strat \<notin> set STRATEGY_CHOICES then Inl (UnknownStrategy strat)
      else case scored_entries lib today tasks_payload strat of Inl e \<Rightarrow> Inl e
      | Inr scored \<Rightarrow>
     let ranked = assign_ranks (sort_by_score_desc scored) in
     case build_summary lib ranked strat of Inl e \<Rightarrow> Inl e
     | Inr summ \<Rightarrow> Inr \<lparr>strategy = strat, tasks = ranked, summary = summ\<rparr>)"

section \<open>Reachability in the dependency graph\<close>

text \<open>
  The edges of the adjacency map, from a task to each task that depends on it, and the tasks
  that lie on a cycle: those that reach themselves along one or more edges.
\<close>

definition graph_edges :: "(int \<times> int list) list \<Rightarrow> (int \<times> int) set" where
  "graph_edges graph = set (concat (map (\<lambda>(a, ns). map (Pair a) ns) graph))"

definition on_cycle :: "(int \<times> int list) list \<Rightarrow> int \<Rightarrow> bool" where
  "on_cycle graph v \<longleftrightarrow> (v, v) \<in> (graph_edges graph)\<^sup>+"

section \<open>Inputs of the examples\<close>

text \<open>
  An excerpt of the Python library for the closed examples: the conversions on the few texts
  and numbers that occur in them. A text outside the excerpt is rejected, a value the
  examples never print is printed as the empty text, and the sum adds from left to right.
\<close>

definition example_lib :: pylib where
  "example_lib =
     \<lparr>float_of_str = map_of [(''2'', 2), (''2.5'', 5 / 2)],
      int_of_str = map_of [(''5'', 5)],
      date_fromisoformat = map_of [(''2025-11-30'', 739585)],
      str_of = (\<lambda>v. case v of PInt i \<Rightarrow> show_int i | _ \<Rightarrow> []),
      format_g = (\<lambda>r. if of_int \<lfloor>r\<rfloor> = r then show_int \<lfloor>r\<rfloor> else []),
      float_sum = (\<lambda>xs. fold (\<lambda>x s. fadd s x) xs 0)\<rparr>"

definition example_task :: "string \<Rightarrow> pyval \<Rightarrow> int list \<Rightarrow> raw_task" where
  "example_task ttl due deps =
     \<lparr>raw_id = None, raw_title = Some ttl, raw_due_date = Some due,
      raw_estimated_hours = Some (PInt 2), raw_importance = Some (PInt 5),
      raw_dependencies = Some deps\<rparr>"

definition example_parsed :: "int \<Rightarrow> int list \<Rightarrow> TaskData" where
  "example_parsed tid deps =
     \<lparr>task_id = tid, title = ''t'', due_date = None, estimated_hours = 2, importance = 5,
      dependencies = deps\<rparr>"

text \<open>
  Task 1 enables task 2, and tasks 2 and 3 depend on each other: the only cycle is
  \<open>2 \<rightarrow> 3 \<rightarrow> 2\<close>, and task 1 leads into it.
\<close>

definition tail_batch :: "TaskData list" where
  "tail_batch = [example_parsed 1 [], example_parsed 2 [1, 3], example_parsed 3 [2]]"

text \<open>
  Tasks 1 and 2 depend on each other, task 3 depends on task 1 and task 2 on task 3: the
  cycles are \<open>1 \<rightarrow> 2 \<rightarrow> 1\<close> and \<open>1 \<rightarrow> 3 \<rightarrow> 2 \<rightarrow> 1\<close>.
\<close>

definition cross_batch :: "TaskData list" where
  "cross_batch = [example_parsed 1 [2], example_parsed 2 [1, 3], example_parsed 3 [1]]"

text \<open>Two tasks without a due date and with equal scores, before a task that is due today.\<close>

definition tie_payload :: "raw_task list" where
  "tie_payload = [example_task ''a'' PNone [], example_task ''b'' PNone [],
                  example_task ''c'' (PDate 739585) []]"

text \<open>Two tasks that depend on each other.\<close>

definition cycle_payload :: "raw_task list" where
  "cycle_payload = [example_task ''a'' PNone [2], example_task ''b'' PNone [1]]"

text \<open>
  Three tasks with different hours and importance; the third is due in five days and
  depends on the other two.
\<close>

definition mixed_payload :: "raw_task list" where
  "mixed_payload =
     [example_task ''a'' PNone [],
      (example_task ''b'' PNone [])
        \<lparr>raw_estimated_hours := Some (PInt 3), raw_importance := Some (PInt 4)\<rparr>,
      (example_task ''c'' (PDate 739590) [1, 2])
        \<lparr>raw_estimated_hours := Some (PFloat (3 / 2)), raw_importance := Some (PInt 7)\<rparr>]"

section \<open>Unknown strategies\<close>

text \<open>
  C7: for every payload and every strategy name that is not one of the four recognised names,
  \<open>score_tasks\<close> fails with the unknown-strategy error. The result does not depend on the
  payload, which is neither parsed nor scored: also a payload that would fail to parse yields
  this error and nothing else.
\<close>

theorem score_tasks_unknown_strategy:
  "strat \<notin> set STRATEGY_CHOICES \<Longrightarrow>
     score_tasks lib today tasks_payload strat = Inl (UnknownStrategy strat)"
  by (simp add: score_tasks_def)

theorem score_tasks_unknown_strategy_witness:
  "''bogus'' \<notin> set STRATEGY_CHOICES \<and>
   score_tasks example_lib 739585 [example_task ''a'' PNone []] ''bogus''
     = Inl (UnknownStrategy ''bogus'')"
proof -
  have h: "''bogus'' \<notin> set STRATEGY_CHOICES" by (simp add: STRATEGY_CHOICES_def)
  show ?thesis using h score_tasks_unknown_strategy [OF h] by simp
qed

section \<open>Urgency\<close>




section \<open>Cycle detection on two batches\<close>

text \<open>
  C1: \<open>find_cycles\<close> does not return exactly the tasks that lie on a cycle. When it meets a
  neighbour that is on the recursion stack it adds the whole stack, so on \<open>tail_batch\<close> it
  reports task 1, which only leads into the cycle of tasks 2 and 3. It looks at a neighbour
  that was visited and has left the stack no further, so on \<open>cross_batch\<close> it misses task 3,
  which lies on the cycle \<open>1 \<rightarrow> 3 \<rightarrow> 2 \<rightarrow> 1\<close>.
\<close>

theorem find_cycles_tail_and_cross:
  "fst (build_dependency_graph tail_batch) = [(1, [2]), (2, [3]), (3, [2])] \<and>
   find_cycles (fst (build_dependency_graph tail_batch)) = {1, 2, 3} \<and>
   \<not> on_cycle (fst (build_dependency_graph tail_batch)) 1 \<and>
   fst (build_dependency_graph cross_batch) = [(1, [2, 3]), (2, [1]), (3, [2])] \<and>
   find_cycles (fst (build_dependency_graph cross_batch)) = {1, 2} \<and>
   on_cycle (fst (build_dependency_graph cross_batch)) 3"
proof -
  have g1: "fst (build_dependency_graph tail_batch) = [(1, [2]), (2, [3]), (3, [2])]"
    by code_simp
  have g2: "fst (build_dependency_graph cross_batch) = [(1, [2, 3]), (2, [1]), (3, [2])]"
    by code_simp
  have c1: "find_cycles [(1, [2]), (2, [3]), (3, [2])] = {1, 2, 3}"
    by code_simp
  have c2: "find_cycles [(1, [2, 3]), (2, [1]), (3, [2])] = {1, 2}"
    by code_simp
  have n1: "\<not> on_cycle [(1, [2]), (2, [3]), (3, [2])] 1"
    by code_simp
  have n2: "on_cycle [(1, [2, 3]), (2, [1]), (3, [2])] 3"
    by code_simp
  show ?thesis by (simp only: g1 g2 c1 c2 n1 n2 simp_thms)
qed

section \<open>Properties of the parser\<close>

lemma enumerate_from_append:
  "enumerate_from i (xs @ ys) = enumerate_from i xs @ enumerate_from (i + int (length xs)) ys"
  by (induction xs arbitrary: i) (simp_all add: algebra_simps)

lemma map_snd_enumerate_from: "map snd (enumerate_from i xs) = xs"
  by (induction xs arbitrary: i) simp_all

lemma length_enumerate_from: "length (enumerate_from i xs) = length xs"
  by (induction xs arbitrary: i) simp_all

lemma map_fst_enumerate_from: "map fst (enumerate_from i xs) = [i..i + int (length xs) - 1]"
proof (induction xs arbitrary: i)
  case Nil
  then show ?case by simp
next
  case (Cons x xs)
  have "[i..i + int (length (x # xs)) - 1] = i # [i + 1..i + 1 + int (length xs) - 1]"
    by (subst upto_rec1) simp_all
  then show ?case using Cons.IH [of "i + 1"] by simp
qed

lemma parse_loop_append:
  "parse_loop lib (xs @ ys) acc =
     (case parse_loop lib xs acc of Inl e \<Rightarrow> Inl e | Inr acc' \<Rightarrow> parse_loop lib ys acc')"
proof (induction xs arbitrary: acc)
  case Nil
  then show ?case by simp
next
  case (Cons p xs)
  obtain idx raw where p: "p = (idx, raw)" by (cases p)
  show ?case using Cons.IH by (simp add: p split: sum.splits)
qed

lemma parse_loop_Inr:
  "parse_loop lib xs acc = Inr out \<Longrightarrow>
     \<exists>new. out = acc @ new \<and> list_all2 (\<lambda>p t. parse_task lib (fst p) (snd p) = Inr t) xs new"
proof (induction xs arbitrary: acc)
  case Nil
  then show ?case by simp
next
  case (Cons p xs)
  obtain idx raw where p: "p = (idx, raw)" by (cases p)
  from Cons.prems obtain t where t: "parse_task lib idx raw = Inr t"
    and rest: "parse_loop lib xs (acc @ [t]) = Inr out"
    by (auto simp: p split: sum.splits)
  from Cons.IH [OF rest] obtain new where
    "out = (acc @ [t]) @ new" "list_all2 (\<lambda>p t. parse_task lib (fst p) (snd p) = Inr t) xs new"
    by blast
  then have "out = acc @ (t # new) \<and>
    list_all2 (\<lambda>p t. parse_task lib (fst p) (snd p) = Inr t) (p # xs) (t # new)"
    using t by (simp add: p)
  then show ?case by blast
qed

lemma parse_task_no_title:
  "raw_title raw = None \<Longrightarrow>
     parse_task lib idx raw =
       (case coerce_date lib (case raw_due_date raw of None \<Rightarrow> PNone | Some v \<Rightarrow> v) of
          Inl e \<Rightarrow> Inl e | Inr due \<Rightarrow> Inl (KeyError ''title''))"
  by (simp add: parse_task_def Let_def split: sum.splits)

lemma parse_loop_missing_title:
  "p \<in> set xs \<Longrightarrow> raw_title (snd p) = None \<Longrightarrow> \<exists>e. parse_loop lib xs acc = Inl e"
proof (induction xs arbitrary: acc)
  case Nil
  then show ?case by simp
next
  case (Cons q xs)
  obtain idx raw where q: "q = (idx, raw)" by (cases q)
  show ?case
  proof (cases "parse_task lib idx raw")
    case (Inl e)
    then show ?thesis by (simp add: q)
  next
    case (Inr t)
    have "p \<noteq> q"
    proof
      assume "p = q"
      with Cons.prems(2) have "raw_title raw = None" by (simp add: q)
      then have "\<exists>e. parse_task lib idx raw = Inl e"
        by (simp add: parse_task_no_title split: sum.splits)
      with Inr show False by simp
    qed
    with Cons.prems(1) have "p \<in> set xs" by simp
    from Cons.IH [OF this Cons.prems(2)] show ?thesis by (simp add: q Inr)
  qed
qed

lemma parse_tasks_missing_title:
  assumes "raw \<in> set payload" "raw_title raw = None"
  shows "\<exists>e. parse_tasks lib payload = Inl e"
proof -
  from assms(1) have "raw \<in> set (map snd (enumerate_from 1 payload))"
    by (simp add: map_snd_enumerate_from)
  then obtain p where "p \<in> set (enumerate_from 1 payload)" "snd p = raw" by auto
  with assms(2) show ?thesis
    unfolding parse_tasks_def by (auto intro: parse_loop_missing_title)
qed

lemma score_tasks_parse_error:
  "parse_tasks lib payload = Inl e \<Longrightarrow> \<exists>e'. score_tasks lib today payload strat = Inl e'"
  by (simp add: score_tasks_def scored_entries_def)

text \<open>
  C6, as the code has it: a batch with an entry that has no title never parses, so no task
  record is produced and \<open>score_tasks\<close> returns no result for any task. The error is the
  missing-field error for \<open>title\<close> when that entry is the first one to fail and its due date
  can be coerced (the due date is coerced before the title is read); otherwise the error that
  was raised first is the one that propagates.
\<close>

theorem missing_title_aborts_batch:
  assumes "raw \<in> set payload" and "raw_title raw = None"
  shows "(\<exists>e. parse_tasks lib payload = Inl e) \<and>
         (\<exists>e. score_tasks lib today payload strat = Inl e) \<and>
         (\<forall>pre post ts due.
            payload = pre @ raw # post \<and> parse_tasks lib pre = Inr ts \<and>
            coerce_date lib (case raw_due_date raw of None \<Rightarrow> PNone | Some v \<Rightarrow> v) = Inr due
            \<longrightarrow> parse_tasks lib payload = Inl (KeyError ''title''))"
proof -
  from assms obtain e where e: "parse_tasks lib payload = Inl e"
    using parse_tasks_missing_title by blast
  then have s: "\<exists>e. score_tasks lib today payload strat = Inl e"
    by (rule score_tasks_parse_error)
  have k: "parse_tasks lib payload = Inl (KeyError ''title'')"
    if split: "payload = pre @ raw # post" and pre: "parse_tasks lib pre = Inr ts"
      and due: "coerce_date lib (case raw_due_date raw of None \<Rightarrow> PNone | Some v \<Rightarrow> v) = Inr due"
    for pre post ts due
  proof -
    have "parse_task lib (1 + int (length pre)) raw = Inl (KeyError ''title'')"
      using assms(2) due by (simp add: parse_task_no_title)
    then show ?thesis
      using pre unfolding parse_tasks_def split
      by (simp add: enumerate_from_append parse_loop_append)
  qed
  from e s k show ?thesis by blast
qed

theorem missing_title_aborts_batch_witness:
  "(example_task ''b'' PNone [])\<lparr>raw_title := None\<rparr>
     \<in> set [example_task ''a'' PNone [], (example_task ''b'' PNone [])\<lparr>raw_title := None\<rparr>] \<and>
   raw_title ((example_task ''b'' PNone [])\<lparr>raw_title := None\<rparr>) = None \<and>
   parse_tasks example_lib
     [example_task ''a'' PNone [], (example_task ''b'' PNone [])\<lparr>raw_title := None\<rparr>]
     = Inl (KeyError ''title'') \<and>
   (\<exists>e. score_tasks example_lib 739585
     [example_task ''a'' PNone [], (example_task ''b'' PNone [])\<lparr>raw_title := None\<rparr>]
     ''smart_balance'' = Inl e)"
proof -
  let ?raw = "(example_task ''b'' PNone [])\<lparr>raw_title := None\<rparr>"
  let ?payload = "[example_task ''a'' PNone [], ?raw]"
  have h1: "?raw \<in> set ?payload" by simp
  have h2: "raw_title ?raw = None" by simp
  note th = missing_title_aborts_batch [OF h1 h2, of example_lib 739585 "''smart_balance''"]
  have pre: "parse_tasks example_lib [example_task ''a'' PNone []] =
    Inr [\<lparr>task_id = 1, title = ''a'', due_date = None, estimated_hours = 2, importance = 5,
          dependencies = []\<rparr>]"
    by code_simp
  have due: "coerce_date example_lib (case raw_due_date ?raw of None \<Rightarrow> PNone | Some v \<Rightarrow> v)
    = Inr None"
    by (simp add: example_task_def coerce_date_def)
  have split: "?payload = [example_task ''a'' PNone []] @ ?raw # []" by simp
  from th have "parse_tasks example_lib ?payload = Inl (KeyError ''title'')"
    using split pre due by blast
  with th h1 h2 show ?thesis by blast
qed

text \<open>
  The error of a batch with a title-less entry need not be the missing-field error: an entry
  before it whose hours are null fails first with a type error, and a title-less entry whose
  due date is not an ISO date fails with a value error before its title is looked up.
\<close>

theorem missing_title_other_error:
  "raw_title ((example_task ''b'' PNone [])\<lparr>raw_title := None\<rparr>) = None \<and>
   parse_tasks example_lib
     [(example_task ''a'' PNone [])\<lparr>raw_estimated_hours := Some PNone\<rparr>,
      (example_task ''b'' PNone [])\<lparr>raw_title := None\<rparr>] = Inl TypeError \<and>
   parse_tasks example_lib
     [(example_task ''b'' (PStr ''tomorrow'') [])\<lparr>raw_title := None\<rparr>] = Inl ValueError"
  by code_simp

section \<open>Properties of binary64 rounding\<close>

lemma round_half_even_range: "\<lfloor>y\<rfloor> \<le> round_half_even y \<and> round_half_even y \<le> \<lceil>y\<rceil>"
proof -
  define f where "f = \<lfloor>y\<rfloor>"
  define d where "d = y - of_int f"
  have rdef: "round_half_even y = (if d < 1 / 2 then f else if 1 / 2 < d then f + 1
                   else if even f then f else f + 1)"
    unfolding round_half_even_def Let_def f_def d_def ..
  have lo: "f \<le> round_half_even y" unfolding rdef by simp
  have hi: "round_half_even y \<le> \<lceil>y\<rceil>"
  proof (cases "d < 1 / 2")
    case True
    then have "round_half_even y = f" unfolding rdef by simp
    moreover have "f \<le> \<lceil>y\<rceil>" unfolding f_def by (rule floor_le_ceiling)
    ultimately show ?thesis by simp
  next
    case False
    then have "0 < d" by simp
    then have "of_int f < y" unfolding d_def by simp
    then have "f < \<lceil>y\<rceil>" by (simp add: less_ceiling_iff)
    moreover have "round_half_even y \<le> f + 1" unfolding rdef by simp
    ultimately show ?thesis by linarith
  qed
  from lo hi show ?thesis unfolding f_def by simp
qed

lemma round_half_even_bound: "\<bar>of_int (round_half_even x) - x\<bar> \<le> 1 / 2"
proof -
  define f where "f = \<lfloor>x\<rfloor>"
  define d where "d = x - of_int f"
  define r where "r = round_half_even x"
  have d0: "0 \<le> d" and d1: "d < 1" unfolding d_def f_def by linarith+
  have x: "x = of_int f + d" by (simp add: d_def)
  have rdef: "r = (if d < 1 / 2 then f else if 1 / 2 < d then f + 1
                   else if even f then f else f + 1)"
    unfolding r_def round_half_even_def Let_def f_def d_def ..
  have "r = f \<and> d \<le> 1 / 2 \<or> r = f + 1 \<and> 1 / 2 \<le> d"
    unfolding rdef by auto
  then have "\<bar>of_int r - x\<bar> \<le> 1 / 2"
  proof
    assume "r = f \<and> d \<le> 1 / 2"
    then have "of_int r - x = - d" "d \<le> 1 / 2" unfolding x by simp_all
    with d0 show ?thesis by linarith
  next
    assume "r = f + 1 \<and> 1 / 2 \<le> d"
    then have "of_int r - x = 1 - d" "1 / 2 \<le> d" unfolding x by simp_all
    with d1 show ?thesis by linarith
  qed
  then show ?thesis unfolding r_def .
qed

lemma halvings_le: "x \<le> 2 ^ j \<Longrightarrow> halvings n x \<le> int j"
proof (induction n x arbitrary: j rule: halvings.induct)
  case (1 n x)
  show ?case
  proof (cases "0 < n \<and> 2 \<le> x")
    case False
    then have "halvings n x = 0" by (subst halvings.simps) auto
    then show ?thesis by simp
  next
    case True
    with "1.prems" have "j \<noteq> 0" by (cases j) auto
    then obtain k where j: "j = Suc k" by (cases j) auto
    from "1.prems" have "x / 2 \<le> 2 ^ k" by (simp add: j)
    from "1.IH" [OF True this] have "halvings (n - 1) (x / 2) \<le> int k" .
    moreover from True have "halvings n x = 1 + halvings (n - 1) (x / 2)"
      by (subst halvings.simps) auto
    ultimately show ?thesis by (simp add: j)
  qed
qed

lemma halvings_nonneg: "0 \<le> halvings n x"
proof (induction n x rule: halvings.induct)
  case (1 n x)
  show ?case
  proof (cases "0 < n \<and> 2 \<le> x")
    case False
    then have "halvings n x = 0" by (subst halvings.simps) auto
    then show ?thesis by simp
  next
    case True
    from "1.IH" [OF True] have "0 \<le> halvings (n - 1) (x / 2)" .
    moreover from True have "halvings n x = 1 + halvings (n - 1) (x / 2)"
      by (subst halvings.simps) auto
    ultimately show ?thesis by simp
  qed
qed

lemma halvings_lower: "1 \<le> x \<Longrightarrow> 2 powi (halvings n x) \<le> x"
proof (induction n x rule: halvings.induct)
  case (1 n x)
  show ?case
  proof (cases "0 < n \<and> 2 \<le> x")
    case False
    then have "halvings n x = 0" by (subst halvings.simps) auto
    then show ?thesis using "1.prems" by simp
  next
    case True
    then have "1 \<le> x / 2" by simp
    from "1.IH" [OF True this] have "2 powi (halvings (n - 1) (x / 2)) \<le> x / 2" .
    then have "2 * 2 powi (halvings (n - 1) (x / 2)) \<le> x" by simp
    moreover have "(2::real) powi (1 + halvings (n - 1) (x / 2))
        = 2 * 2 powi (halvings (n - 1) (x / 2))"
      by (simp add: power_int_add)
    moreover from True have "halvings n x = 1 + halvings (n - 1) (x / 2)"
      by (subst halvings.simps) auto
    ultimately show ?thesis by simp
  qed
qed

lemma doublings_le0: "doublings n x \<le> 0"
proof (induction n x rule: doublings.induct)
  case (1 n x)
  show ?case
  proof (cases "0 < n \<and> x < 1")
    case False
    then have "doublings n x = 0" by (subst doublings.simps) auto
    then show ?thesis by simp
  next
    case True
    from "1.IH" [OF True] have "doublings (n - 1) (2 * x) \<le> 0" .
    moreover from True have "doublings n x = doublings (n - 1) (2 * x) - 1"
      by (subst doublings.simps) auto
    ultimately show ?thesis by simp
  qed
qed

lemma binade_le: "\<bar>x\<bar> \<le> 2 ^ j \<Longrightarrow> binade x \<le> int j"
proof (cases "1 \<le> \<bar>x\<bar>")
  case True
  assume "\<bar>x\<bar> \<le> 2 ^ j"
  then have "halvings 1023 \<bar>x\<bar> \<le> int j" by (rule halvings_le)
  with True show ?thesis by (simp add: binade_def)
next
  case False
  have "doublings 1022 \<bar>x\<bar> \<le> 0" by (rule doublings_le0)
  with False show ?thesis by (simp add: binade_def)
qed

lemma fl_nonneg: "0 \<le> x \<Longrightarrow> 0 \<le> fl x"
proof (cases "x = 0")
  case True
  then show ?thesis by (simp add: fl_def)
next
  case False
  assume x: "0 \<le> x"
  define e where "e = binade x - 52"
  have p: "(0::real) < 2 powi e" by simp
  with x have "0 \<le> x / 2 powi e" by simp
  then have "0 \<le> \<lfloor>x / 2 powi e\<rfloor>" by simp
  with round_half_even_range [of "x / 2 powi e"] have "0 \<le> round_half_even (x / 2 powi e)"
    by linarith
  then have "(0::real) \<le> of_int (round_half_even (x / 2 powi e)) * 2 powi e"
    using p by simp
  with False show ?thesis by (simp add: fl_def Let_def e_def)
qed

lemma fl_le_pow2:
  assumes "0 \<le> x" and "x \<le> 2 ^ j"
  shows "fl x \<le> 2 ^ j"
proof (cases "x = 0")
  case True
  then show ?thesis by (simp add: fl_def)
next
  case False
  define e where "e = binade x - 52"
  from assms have "\<bar>x\<bar> \<le> 2 ^ j" by simp
  then have "binade x \<le> int j" by (rule binade_le)
  then have ej: "e \<le> int j" unfolding e_def by simp
  define k where "k = nat (int j - e)"
  have kj: "int k = int j - e" unfolding k_def using ej by simp
  have p: "(0::real) < 2 powi e" by simp
  have split: "(2::real) ^ j = 2 ^ k * 2 powi e"
  proof -
    have "(2::real) powi (int k + e) = 2 powi (int k) * 2 powi e"
      by (rule power_int_add) simp
    moreover have "int k + e = int j" using kj by simp
    ultimately have "(2::real) powi (int j) = 2 powi (int k) * 2 powi e" by simp
    then show ?thesis by simp
  qed
  from assms(2) have "x / 2 powi e \<le> 2 ^ k" unfolding split using p
    by (simp add: divide_le_eq)
  then have "x / 2 powi e \<le> of_int (2 ^ k)" by simp
  then have "\<lceil>x / 2 powi e\<rceil> \<le> 2 ^ k" by (simp only: ceiling_le_iff)
  with round_half_even_range [of "x / 2 powi e"] have "round_half_even (x / 2 powi e) \<le> 2 ^ k"
    by linarith
  then have "(of_int (round_half_even (x / 2 powi e)) :: real) \<le> of_int (2 ^ k)"
    by (simp only: of_int_le_iff)
  then have "(of_int (round_half_even (x / 2 powi e)) :: real) * 2 powi e \<le> 2 ^ k * 2 powi e"
    using p by simp
  then show ?thesis using False unfolding split by (simp add: fl_def Let_def e_def)
qed

lemma fl_unit: "0 \<le> x \<Longrightarrow> x \<le> 1 \<Longrightarrow> 0 \<le> fl x \<and> fl x \<le> 1"
  using fl_nonneg [of x] fl_le_pow2 [of x 0] by simp

lemma fl_error: "\<bar>fl x - x\<bar> \<le> 2 powi (binade x - 53)"
proof (cases "x = 0")
  case True
  then show ?thesis by (simp add: fl_def)
next
  case False
  define e where "e = binade x - 52"
  define y where "y = x / 2 powi e"
  have p: "(0::real) < 2 powi e" by simp
  have x: "x = y * 2 powi e" unfolding y_def by simp
  have f: "fl x = of_int (round_half_even y) * 2 powi e"
    using False by (simp add: fl_def Let_def e_def y_def)
  have "fl x - x = (of_int (round_half_even y) - y) * 2 powi e"
    using f x by (simp add: algebra_simps)
  then have "\<bar>fl x - x\<bar> = \<bar>of_int (round_half_even y) - y\<bar> * 2 powi e"
    using p by (simp add: abs_mult)
  also have "\<dots> \<le> 1 / 2 * 2 powi e"
    using round_half_even_bound [of y] p by (intro mult_right_mono) simp_all
  also have "\<dots> = 2 powi (binade x - 53)"
  proof -
    have "(2::real) powi (binade x - 53 + 1) = 2 powi (binade x - 53) * 2 powi 1"
      by (rule power_int_add) simp
    moreover have "binade x - 53 + 1 = e" unfolding e_def by simp
    ultimately show ?thesis by simp
  qed
  finally show ?thesis .
qed

lemma fl_error_le:
  assumes "\<bar>x\<bar> \<le> 2 ^ j"
  shows "\<bar>fl x - x\<bar> \<le> 2 powi (int j - 53)"
proof -
  from assms have "binade x \<le> int j" by (rule binade_le)
  then have "(2::real) powi (binade x - 53) \<le> 2 powi (int j - 53)"
    by (intro power_int_increasing) simp_all
  with fl_error [of x] show ?thesis by linarith
qed

lemma fl_ge_one:
  assumes "1 \<le> x"
  shows "1 \<le> fl x"
proof -
  define b where "b = halvings 1023 x"
  define e where "e = b - 52"
  from assms have bx: "binade x = b" by (simp add: binade_def b_def)
  have b0: "0 \<le> b" unfolding b_def by (rule halvings_nonneg)
  have lo: "2 powi b \<le> x" unfolding b_def by (rule halvings_lower [OF assms])
  have p: "(0::real) < 2 powi e" by simp
  have split: "(2::real) powi b = 2 ^ 52 * 2 powi e"
  proof -
    have "(2::real) powi (52 + e) = 2 powi 52 * 2 powi e"
      by (rule power_int_add) simp
    moreover have "52 + e = b" unfolding e_def by simp
    ultimately show ?thesis by simp
  qed
  from lo have "2 ^ 52 \<le> x / 2 powi e" unfolding split using p by (simp add: le_divide_eq)
  then have "of_int (2 ^ 52) \<le> x / 2 powi e" by simp
  then have "2 ^ 52 \<le> \<lfloor>x / 2 powi e\<rfloor>" by (simp only: le_floor_iff)
  with round_half_even_range [of "x / 2 powi e"] have "2 ^ 52 \<le> round_half_even (x / 2 powi e)"
    by linarith
  then have "(of_int (2 ^ 52) :: real) \<le> of_int (round_half_even (x / 2 powi e))"
    by (simp only: of_int_le_iff)
  then have "(2 ^ 52 :: real) * 2 powi e \<le> of_int (round_half_even (x / 2 powi e)) * 2 powi e"
    using p by simp
  then have "2 powi b \<le> fl x"
    unfolding split using assms by (simp add: fl_def Let_def bx e_def)
  moreover have "(1::real) \<le> 2 powi b" using b0 by simp
  ultimately show ?thesis by linarith
qed

text \<open>Rounding to decimals keeps a number of the unit interval in it.\<close>

lemma py_round_unit_range:
  assumes "0 \<le> x" and "x \<le> 1"
  shows "0 \<le> py_round x n \<and> py_round x n \<le> 1"
proof -
  define y where "y = x * 10 ^ n"
  have y0: "0 \<le> y" unfolding y_def using assms(1) by simp
  have "y \<le> 1 * 10 ^ n" unfolding y_def using assms(2) by (intro mult_right_mono) simp_all
  then have y1: "y \<le> of_int (10 ^ n)" by simp
  from y0 have "0 \<le> \<lfloor>y\<rfloor>" by simp
  with round_half_even_range [of y] have r0: "0 \<le> round_half_even y" by linarith
  from y1 have "\<lceil>y\<rceil> \<le> 10 ^ n" by (simp only: ceiling_le_iff)
  with round_half_even_range [of y] have r1: "round_half_even y \<le> 10 ^ n" by linarith
  have a: "(0::real) \<le> of_int (round_half_even y) / 10 ^ n"
    using r0 by simp
  from r1 have "(of_int (round_half_even y) :: real) \<le> of_int (10 ^ n)"
    by (simp only: of_int_le_iff)
  then have "(of_int (round_half_even y) :: real) \<le> 10 ^ n" by simp
  then have b: "(of_int (round_half_even y) :: real) / 10 ^ n \<le> 1" by simp
  from fl_unit [OF a b] show ?thesis unfolding py_round_def y_def .
qed

text \<open>
  The decimal that \<open>py_round\<close> converts: a whole number of units of \<open>10\<^sup>-\<^sup>n\<close>, at most half
  a unit away from the number rounded.
\<close>

lemma py_round_decimal:
  "\<exists>k. py_round x n = fl (of_int k / 10 ^ n) \<and> \<bar>of_int k / 10 ^ n - x\<bar> \<le> 1 / (2 * 10 ^ n)"
proof -
  define k where "k = round_half_even (x * 10 ^ n)"
  have p: "(0::real) < 10 ^ n" by simp
  have "of_int k / 10 ^ n - x = (of_int k - x * 10 ^ n) / 10 ^ n"
    by (simp add: diff_divide_distrib)
  then have "\<bar>of_int k / 10 ^ n - x\<bar> = \<bar>of_int k - x * 10 ^ n\<bar> / 10 ^ n"
    by simp
  also have "\<dots> \<le> (1 / 2) / 10 ^ n"
    unfolding k_def by (rule divide_right_mono [OF round_half_even_bound]) simp
  finally have "\<bar>of_int k / 10 ^ n - x\<bar> \<le> 1 / (2 * 10 ^ n)" by simp
  moreover have "py_round x n = fl (of_int k / 10 ^ n)" by (simp add: py_round_def k_def)
  ultimately show ?thesis by blast
qed

section \<open>The shape of a successful run\<close>

lemma parse_tasks_Inr:
  "parse_tasks lib payload = Inr parsed \<Longrightarrow>
     list_all2 (\<lambda>p t. parse_task lib (fst p) (snd p) = Inr t) (enumerate_from 1 payload) parsed"
  unfolding parse_tasks_def by (drule parse_loop_Inr) simp

lemma parse_tasks_length: "parse_tasks lib payload = Inr parsed \<Longrightarrow> length parsed = length payload"
  by (drule parse_tasks_Inr) (simp add: list_all2_lengthD [symmetric] length_enumerate_from)

lemma score_loop_Inr:
  "score_loop lib today strat deps cyc m ts acc = Inr out \<Longrightarrow>
     \<exists>new. out = acc @ new \<and>
       list_all2 (\<lambda>t e. score_task lib today strat deps cyc m t = Inr e) ts new"
proof (induction ts arbitrary: acc)
  case Nil
  then show ?case by simp
next
  case (Cons t ts)
  from Cons.prems obtain e where e: "score_task lib today strat deps cyc m t = Inr e"
    and rest: "score_loop lib today strat deps cyc m ts (acc @ [e]) = Inr out"
    by (auto split: sum.splits)
  from Cons.IH [OF rest] obtain new where
    "out = (acc @ [e]) @ new"
    "list_all2 (\<lambda>t e. score_task lib today strat deps cyc m t = Inr e) ts new"
    by blast
  then have "out = acc @ (e # new) \<and>
    list_all2 (\<lambda>t e. score_task lib today strat deps cyc m t = Inr e) (t # ts) (e # new)"
    using e by simp
  then show ?case by blast
qed

lemma scored_entries_Inr:
  assumes "scored_entries lib today payload strat = Inr scored"
  shows "\<exists>parsed graph deps m.
     parse_tasks lib payload = Inr parsed \<and> build_dependency_graph parsed = (graph, deps) \<and>
     batch_max_dep deps = Inr m \<and>
     list_all2 (\<lambda>t e. score_task lib today strat deps (find_cycles graph) m t = Inr e)
       parsed scored"
proof -
  from assms obtain parsed where p: "parse_tasks lib payload = Inr parsed"
    by (auto simp: scored_entries_def split: sum.splits)
  obtain graph deps where g: "build_dependency_graph parsed = (graph, deps)"
    by (cases "build_dependency_graph parsed")
  from assms p g obtain m where m: "batch_max_dep deps = Inr m"
    by (auto simp: scored_entries_def split: sum.splits)
  from assms p g m have
    "score_loop lib today strat deps (find_cycles graph) m parsed [] = Inr scored"
    by (simp add: scored_entries_def)
  from score_loop_Inr [OF this] have
    "list_all2 (\<lambda>t e. score_task lib today strat deps (find_cycles graph) m t = Inr e)
       parsed scored"
    by simp
  with p g m show ?thesis by blast
qed

lemma score_tasks_Inr:
  assumes "score_tasks lib today payload strat = Inr res"
  shows "strat \<in> set STRATEGY_CHOICES \<and>
     (\<exists>scored. scored_entries lib today payload strat = Inr scored \<and>
        tasks res = assign_ranks (sort_by_score_desc scored) \<and>
        build_summary lib (tasks res) strat = Inr (summary res) \<and> strategy res = strat)"
proof -
  from assms have s: "strat \<in> set STRATEGY_CHOICES"
    by (auto simp: score_tasks_def split: if_splits)
  from assms s obtain scored where sc: "scored_entries lib today payload strat = Inr scored"
    by (auto simp: score_tasks_def split: sum.splits)
  from assms s sc obtain summ where
    sm: "build_summary lib (assign_ranks (sort_by_score_desc scored)) strat = Inr summ"
    by (auto simp: score_tasks_def Let_def split: sum.splits)
  from assms s sc sm have
    "res = \<lparr>strategy = strat, tasks = assign_ranks (sort_by_score_desc scored), summary = summ\<rparr>"
    by (simp add: score_tasks_def Let_def)
  with s sc sm show ?thesis by simp
qed

lemma score_task_Inr_form:
  assumes "score_task lib today strat deps cyc m t = Inr e"
  obtains urg dl imp ds f where
    "compute_urgency today (due_date t) (Some today) = Inr (urg, dl)"
    "compute_importance (importance t) = Inr imp"
    "raw_dep_score (dict_get deps (task_id t) 0) m = Inr ds"
    "map_of STRATEGY_FUNCTIONS strat = Some f"
    "components e =
       \<lparr>urgency = py_round urg 4, importance_norm = py_round imp 4,
        quick_win = py_round (compute_quick_win (estimated_hours t)) 4,
        dep_score = py_round ds 4, num_dependents = dict_get deps (task_id t) 0,
        days_left = dl\<rparr>"
    "score e = py_round (fmul (if task_id t \<in> cyc then fmul (f (components e)) (fl (2 / 10))
                                else f (components e)) 100) 2"
    "cycle_issue e = (task_id t \<in> cyc)"
    "task_id e = task_id t \<and> title e = title t \<and> due_date e = due_date t \<and>
     estimated_hours e = estimated_hours t \<and> importance e = importance t \<and>
     dependencies e = dependencies t \<and> rank e = None"
proof -
  from assms obtain urg dl where
    u: "compute_urgency today (due_date t) (Some today) = Inr (urg, dl)"
    by (auto simp: score_task_def split: sum.splits)
  from assms u obtain imp where i: "compute_importance (importance t) = Inr imp"
    by (auto simp: score_task_def split: sum.splits)
  from assms u i obtain ds where
    d: "raw_dep_score (dict_get deps (task_id t) 0) m = Inr ds"
    by (auto simp: score_task_def Let_def split: sum.splits)
  from assms u i d obtain f where f: "map_of STRATEGY_FUNCTIONS strat = Some f"
    by (auto simp: score_task_def Let_def split: option.splits)
  from assms u i d f have e: "e =
     \<lparr>task_id = task_id t, title = title t, due_date = due_date t,
      estimated_hours = estimated_hours t, importance = importance t,
      dependencies = dependencies t,
      score = py_round (fmul
         (if task_id t \<in> cyc
          then fmul (f \<lparr>urgency = py_round urg 4, importance_norm = py_round imp 4,
                        quick_win = py_round (compute_quick_win (estimated_hours t)) 4,
                        dep_score = py_round ds 4,
                        num_dependents = dict_get deps (task_id t) 0, days_left = dl\<rparr>)
                    (fl (2 / 10))
          else f \<lparr>urgency = py_round urg 4, importance_norm = py_round imp 4,
                   quick_win = py_round (compute_quick_win (estimated_hours t)) 4,
                   dep_score = py_round ds 4,
                   num_dependents = dict_get deps (task_id t) 0, days_left = dl\<rparr>) 100) 2,
      explanation = build_explanation lib t
         \<lparr>urgency = py_round urg 4, importance_norm = py_round imp 4,
          quick_win = py_round (compute_quick_win (estimated_hours t)) 4,
          dep_score = py_round ds 4,
          num_dependents = dict_get deps (task_id t) 0, days_left = dl\<rparr> (task_id t \<in> cyc),
      cycle_issue = (task_id t \<in> cyc),
      components = \<lparr>urgency = py_round urg 4, importance_norm = py_round imp 4,
          quick_win = py_round (compute_quick_win (estimated_hours t)) 4,
          dep_score = py_round ds 4,
          num_dependents = dict_get deps (task_id t) 0, days_left = dl\<rparr>,
      rank = None\<rparr>"
    by (simp add: score_task_def Let_def)
  show ?thesis
  proof (rule that [OF u i d f])
    show "components e =
       \<lparr>urgency = py_round urg 4, importance_norm = py_round imp 4,
        quick_win = py_round (compute_quick_win (estimated_hours t)) 4,
        dep_score = py_round ds 4, num_dependents = dict_get deps (task_id t) 0,
        days_left = dl\<rparr>"
      by (simp add: e)
    show "score e = py_round (fmul (if task_id t \<in> cyc
         then fmul (f (components e)) (fl (2 / 10)) else f (components e)) 100) 2"
      by (simp add: e)
    show "cycle_issue e = (task_id t \<in> cyc)" by (simp add: e)
    show "task_id e = task_id t \<and> title e = title t \<and> due_date e = due_date t \<and>
     estimated_hours e = estimated_hours t \<and> importance e = importance t \<and>
     dependencies e = dependencies t \<and> rank e = None"
      by (simp add: e)
  qed
qed

lemma score_task_Inr:
  assumes "score_task lib today strat deps cyc m t = Inr e"
  shows "task_id e = task_id t \<and> title e = title t \<and> due_date e = due_date t \<and>
     estimated_hours e = estimated_hours t \<and> importance e = importance t \<and>
     dependencies e = dependencies t \<and> rank e = None \<and> cycle_issue e = (task_id t \<in> cyc) \<and>
     (\<exists>f. map_of STRATEGY_FUNCTIONS strat = Some f \<and>
        score e = py_round (fmul (if cycle_issue e then fmul (f (components e)) (fl (2 / 10))
                                  else f (components e)) 100) 2)"
proof -
  from assms obtain f where
    f: "map_of STRATEGY_FUNCTIONS strat = Some f" and
    s: "score e = py_round (fmul (if task_id t \<in> cyc then fmul (f (components e)) (fl (2 / 10))
                                else f (components e)) 100) 2" and
    c: "cycle_issue e = (task_id t \<in> cyc)" and
    r: "task_id e = task_id t \<and> title e = title t \<and> due_date e = due_date t \<and>
     estimated_hours e = estimated_hours t \<and> importance e = importance t \<and>
     dependencies e = dependencies t \<and> rank e = None"
    by (rule score_task_Inr_form)
  from s c have "score e = py_round (fmul (if cycle_issue e
      then fmul (f (components e)) (fl (2 / 10)) else f (components e)) 100) 2"
    by simp
  with f have "\<exists>f. map_of STRATEGY_FUNCTIONS strat = Some f \<and>
        score e = py_round (fmul (if cycle_issue e then fmul (f (components e)) (fl (2 / 10))
                                  else f (components e)) 100) 2"
    by blast
  with r c show ?thesis by simp
qed

section \<open>Sorting and ranking\<close>

lemma assign_ranks_from:
  "list_all2 (\<lambda>p b. b = (snd p)\<lparr>rank := Some (fst p)\<rparr>) (enumerate_from i xs)
     (map (\<lambda>(idx, item). item\<lparr>rank := Some idx\<rparr>) (enumerate_from i xs))"
  by (induction xs arbitrary: i) simp_all

lemma length_assign_ranks: "length (assign_ranks xs) = length xs"
  by (simp add: assign_ranks_def length_enumerate_from)

lemma map_rank_enumerate:
  "map rank (map (\<lambda>(idx, item). item\<lparr>rank := Some idx\<rparr>) (enumerate_from i xs))
     = map Some (map fst (enumerate_from i xs))"
  by (induction xs arbitrary: i) simp_all

lemma map_rank_assign_ranks: "map rank (assign_ranks xs) = map Some [1..int (length xs)]"
  unfolding assign_ranks_def map_rank_enumerate map_fst_enumerate_from by simp

lemma unrank_enumerate:
  "map (\<lambda>e. e\<lparr>rank := None\<rparr>) (map (\<lambda>(idx, item). item\<lparr>rank := Some idx\<rparr>) (enumerate_from i xs))
     = map (\<lambda>e. e\<lparr>rank := None\<rparr>) xs"
  by (induction xs arbitrary: i) simp_all

lemma unrank_assign_ranks:
  "map (\<lambda>e. e\<lparr>rank := None\<rparr>) (assign_ranks xs) = map (\<lambda>e. e\<lparr>rank := None\<rparr>) xs"
  unfolding assign_ranks_def unrank_enumerate ..

lemma map_score_unrank: "map score (map (\<lambda>e. e\<lparr>rank := None\<rparr>) xs) = map score xs"
  by simp

lemma map_title_unrank: "map title (map (\<lambda>e. e\<lparr>rank := None\<rparr>) xs) = map title xs"
  by simp

lemma map_score_assign_ranks: "map score (assign_ranks xs) = map score xs"
  using arg_cong [OF unrank_assign_ranks [of xs], of "map score"]
  unfolding map_score_unrank .

lemma map_title_assign_ranks: "map title (assign_ranks xs) = map title xs"
  using arg_cong [OF unrank_assign_ranks [of xs], of "map title"]
  unfolding map_title_unrank .

lemma unrank_id: "\<forall>e \<in> set xs. rank e = None \<Longrightarrow> map (\<lambda>e. e\<lparr>rank := None\<rparr>) xs = xs"
  by (induction xs) simp_all

lemma sorted_desc_sort_by_score:
  "sorted_wrt (\<lambda>a b. score b \<le> score a) (sort_by_score_desc xs)"
proof -
  have "sorted (map (\<lambda>entry. - score entry) (sort_key (\<lambda>entry. - score entry) xs))"
    by (rule sorted_sort_key)
  then show ?thesis by (simp add: sort_by_score_desc_def sorted_map)
qed

lemma sort_by_score_stable:
  "filter (\<lambda>e. score e = v) (sort_by_score_desc xs) = filter (\<lambda>e. score e = v) xs"
proof -
  have "filter (\<lambda>e. - score e = - v) (sort_key (\<lambda>entry. - score entry) xs)
      = filter (\<lambda>e. - score e = - v) xs"
    by (rule sort_key_stable)
  then show ?thesis by (simp add: sort_by_score_desc_def)
qed

lemma sorted_wrt_score_map:
  "sorted_wrt (\<lambda>a b. score b \<le> score a) xs \<longleftrightarrow> sorted_wrt (\<lambda>a b. b \<le> a) (map score xs)"
  by (simp add: sorted_wrt_map)

lemma scored_entries_rank_None:
  assumes "scored_entries lib today payload strat = Inr scored"
  shows "\<forall>e \<in> set scored. rank e = None"
proof -
  from scored_entries_Inr [OF assms] obtain parsed graph deps m where
    l: "list_all2 (\<lambda>t e. score_task lib today strat deps (find_cycles graph) m t = Inr e)
       parsed scored"
    by blast
  show ?thesis
  proof
    fix e assume "e \<in> set scored"
    then obtain i where i: "i < length scored" "scored ! i = e" by (auto simp: in_set_conv_nth)
    with l have "score_task lib today strat deps (find_cycles graph) m (parsed ! i) = Inr e"
      by (auto simp: list_all2_conv_all_nth)
    then show "rank e = None" by (simp add: score_task_Inr)
  qed
qed

lemma scored_entries_length:
  assumes "scored_entries lib today payload strat = Inr scored"
  shows "length scored = length payload"
proof -
  from scored_entries_Inr [OF assms] obtain parsed graph deps m where
    p: "parse_tasks lib payload = Inr parsed" and
    l: "list_all2 (\<lambda>t e. score_task lib today strat deps (find_cycles graph) m t = Inr e)
       parsed scored"
    by blast
  from l have "length scored = length parsed" by (simp add: list_all2_lengthD)
  with parse_tasks_length [OF p] show ?thesis by simp
qed

end
